theory Spec2Isabelle
  imports Main "HOL-Library.Word"
begin

section \<open>Errors and panics\<close>

text \<open>
  Go's \<open>error\<close> values that occur in the package. \<open>errListenerAlreadyCreated\<close> and
  \<open>errListenerNotYetCreated\<close> are the two package variables of server.go;
  \<open>ErrListenerClosed\<close> and \<open>ErrGracefulShutdown\<close> are the two struct types that embed
  (wrap) another error; \<open>NetError\<close> stands for every error that the operating system,
  the network or the certificate parser produces, identified by its message;
  \<open>tlsNoCertificates\<close> is the error with which \<open>tls.Listen\<close> refuses a configuration
  that has no certificate.
\<close>

datatype error =
    errListenerAlreadyCreated
  | errListenerNotYetCreated
  | NetError string
  | tlsNoCertificates
  | ErrListenerClosed error
  | ErrGracefulShutdown error

text \<open>The type assertion \<open>err.(ErrListenerClosed)\<close>: the dynamic type of the value.\<close>

fun is_ErrListenerClosed :: "error \<Rightarrow> bool" where
  "is_ErrListenerClosed (ErrListenerClosed e) = True"
| "is_ErrListenerClosed e = False"

text \<open>The type assertion \<open>err.(ErrGracefulShutdown)\<close>, as the callers of Serve use it.\<close>

fun is_ErrGracefulShutdown :: "error \<Rightarrow> bool" where
  "is_ErrGracefulShutdown (ErrGracefulShutdown e) = True"
| "is_ErrGracefulShutdown e = False"

text \<open>
  Run-time panics that the code can raise: a method call through a nil interface value,
  and \<open>sync.WaitGroup\<close>'s panic when its counter, an int32, is negative after an Add.
\<close>

datatype panic = NilDereference | NegativeWaitGroupCounter


section \<open>The listener (WebServerListener)\<close>

type_synonym conn = nat

text \<open>
  A parsed certificate and key pair (\<open>tls.Certificate\<close>): the certificate chain, and the
  names of its leaf (common name and DNS names) as \<open>x509\<close> parses them.
\<close>

record tls_Certificate =
  Certificate :: "string list"
  leaf_names :: "string list"

text \<open>The cipher suites that \<open>DefaultTLSConfiguration\<close> names.\<close>

datatype cipher_suite =
    TLS_ECDHE_ECDSA_WITH_AES_128_GCM_SHA256
  | TLS_ECDHE_RSA_WITH_AES_128_GCM_SHA256
  | TLS_ECDHE_ECDSA_WITH_AES_128_CBC_SHA
  | TLS_ECDHE_RSA_WITH_AES_128_CBC_SHA
  | TLS_ECDHE_RSA_WITH_3DES_EDE_CBC_SHA
  | TLS_RSA_WITH_AES_128_CBC_SHA
  | TLS_RSA_WITH_3DES_EDE_CBC_SHA

text \<open>
  The fields of \<open>tls.Config\<close> that the package sets. \<open>NameToCertificate\<close> is the map
  from names to certificates as a list of entries, in the order in which they are stored
  (a later entry for the same name overrides an earlier one).
\<close>

record tls_Config =
  Certificates :: "tls_Certificate list"
  NameToCertificate :: "(string \<times> tls_Certificate) list"
  NextProtos :: "string list"
  CipherSuites :: "cipher_suite list"
  PreferServerCipherSuites :: bool
  SessionTicketsDisabled :: bool

text \<open>
  The transport listener returned by \<open>net.Listen\<close> or \<open>tls.Listen\<close>: what it is bound
  to, and whether it is wrapped in TLS. What its Accept and Close return is decided by
  the operating system, so each call of the model takes that result as an argument.
\<close>

record net_Listener =
  network :: string
  laddr :: string
  tlsConfig :: "tls_Config option"

text \<open>
  \<open>WebServerListener\<close>: the embedded \<open>net.Listener\<close> interface value (\<open>None\<close> is nil, as
  in the zero value \<open>&WebServerListener{}\<close> that \<open>New\<close> stores) and the int32 flag.
\<close>

record WebServerListener =
  Listener :: "net_Listener option"
  listening :: "32 word"

text \<open>
  \<open>net.Listen\<close> and \<open>tls.Listen\<close> of the standard library. \<open>bind\<close> is the error result
  of binding the address (\<open>None\<close> is a nil error). \<open>tls.Listen\<close> refuses a configuration
  without certificates before it binds.
\<close>

definition net_Listen :: "string \<Rightarrow> string \<Rightarrow> error option \<Rightarrow> error + net_Listener" where
  "net_Listen netw addr bind =
     (case bind of
        Some err \<Rightarrow> Inl err
      | None \<Rightarrow> Inr \<lparr>network = netw, laddr = addr, tlsConfig = None\<rparr>)"

definition tls_Listen ::
  "string \<Rightarrow> string \<Rightarrow> tls_Config \<Rightarrow> error option \<Rightarrow> error + net_Listener" where
  "tls_Listen netw addr config bind =
     (if Certificates config = [] then Inl tlsNoCertificates
      else
        (case bind of
           Some err \<Rightarrow> Inl err
         | None \<Rightarrow> Inr \<lparr>network = netw, laddr = addr, tlsConfig = Some config\<rparr>))"

text \<open>
  \<open>Listen\<close> of the listener file: a TLS listener exactly when a configuration is given.
\<close>

definition Listen ::
  "string \<Rightarrow> string \<Rightarrow> tls_Config option \<Rightarrow> error option \<Rightarrow> error + WebServerListener" where
  "Listen netw addr tlsc bind =
     (case (case tlsc of
              Some config \<Rightarrow> tls_Listen netw addr config bind
            | None \<Rightarrow> net_Listen netw addr bind) of
        Inl err \<Rightarrow> Inl err
      | Inr u \<Rightarrow> Inr \<lparr>Listener = Some u, listening = 1\<rparr>)"

definition Listening :: "WebServerListener \<Rightarrow> bool" where
  "Listening l = (listening l \<noteq> 0)"

text \<open>
  \<open>Accept\<close>. The argument \<open>r\<close> is the pair \<open>(conn, err)\<close> that the underlying
  \<open>l.Listener.Accept()\<close> returns. The flag is only read, so the listener is not
  returned.
\<close>

definition Accept ::
  "WebServerListener \<Rightarrow> conn option \<times> error option \<Rightarrow> panic + (conn option \<times> error option)" where
  "Accept l r =
     (case Listener l of
        None \<Rightarrow> Inl NilDereference
      | Some u \<Rightarrow>
          (case snd r of
             Some err \<Rightarrow>
               (if \<not> Listening l then Inr (None, Some (ErrListenerClosed err))
                else Inr (fst r, Some err))
           | None \<Rightarrow> Inr (fst r, None)))"

text \<open>
  The effects of \<open>Close\<close> that other goroutines and the transport can see, in program
  order: the atomic store to the flag, and the call of the underlying Close.
\<close>

datatype effect = AtomicStoreListening "32 word" | UnderlyingClose

text \<open>
  \<open>Close\<close>. The argument \<open>r\<close> is the error result of the underlying
  \<open>l.Listener.Close()\<close>. The result is the listener afterwards, the returned error and
  the effects performed.
\<close>

definition Close ::
  "WebServerListener \<Rightarrow> error option \<Rightarrow> panic + (WebServerListener \<times> error option \<times> effect list)" where
  "Close l r =
     (if \<not> Listening l then Inr (l, None, [])
      else
        (let l' = l\<lparr>listening := 0\<rparr> in
         case Listener l' of
           None \<Rightarrow> Inl NilDereference
         | Some u \<Rightarrow> Inr (l', r, [AtomicStoreListening 0, UnderlyingClose])))"


section \<open>The server (WebServer)\<close>

text \<open>The states that \<open>net/http\<close> reports to a \<open>ConnState\<close> hook.\<close>

datatype http_ConnState = StateNew | StateActive | StateIdle | StateHijacked | StateClosed

text \<open>
  The fields of \<open>http.Server\<close> that the package touches. \<open>Server_ConnState\<close> is the
  server's hook field: \<open>True\<close> once \<open>Serve\<close> has set it to \<open>s.connStateTracker\<close>.
  \<open>disableKeepAlives\<close> is what \<open>SetKeepAlivesEnabled\<close> stores.
\<close>

record http_Server =
  Addr :: string
  TLSConfig :: "tls_Config option"
  Server_ConnState :: bool
  disableKeepAlives :: bool

text \<open>
  \<open>WebServer\<close>. The user's hook \<open>ConnState\<close> is \<open>None\<close> when nil, and otherwise holds
  the calls it has received so far, oldest first. The \<open>*WebServerListener\<close> is held by
  value: the server is the only one to reassign it. \<open>wg\<close> is the counter of the
  \<open>sync.WaitGroup\<close>, an int32 that is read as a signed value; \<open>idleConns\<close> is the key
  set of the map.
\<close>

record WebServer =
  Server :: http_Server
  ConnState :: "(conn \<times> http_ConnState) list option"
  listener :: WebServerListener
  wg :: "32 word"
  idleConns :: "conn set"

definition New :: WebServer where
  "New = \<lparr>Server = \<lparr>Addr = [], TLSConfig = None, Server_ConnState = False,
                     disableKeepAlives = False\<rparr>,
          ConnState = None,
          listener = \<lparr>Listener = None, listening = 0\<rparr>,
          wg = 0,
          idleConns = {}\<rparr>"

text \<open>Sequencing of steps that may panic: the first panic ends the call.\<close>

definition and_then :: "panic + 'a \<Rightarrow> ('a \<Rightarrow> panic + 'b) \<Rightarrow> panic + 'b" where
  "and_then m f = (case m of Inl p \<Rightarrow> Inl p | Inr x \<Rightarrow> f x)"

text \<open>
  \<open>s.wg.Add(delta)\<close> and \<open>s.wg.Done()\<close>: \<open>sync.WaitGroup\<close> adds \<open>int32(delta)\<close> to its
  counter with wrap-around, and panics when the new value is negative.
\<close>

definition wg_Add :: "WebServer \<Rightarrow> int \<Rightarrow> panic + WebServer" where
  "wg_Add s delta =
     (let v = wg s + word_of_int delta in
      if sint v < 0 then Inl NegativeWaitGroupCounter
      else Inr (s\<lparr>wg := v\<rparr>))"

definition wg_Done :: "WebServer \<Rightarrow> panic + WebServer" where
  "wg_Done s = wg_Add s (- 1)"

text \<open>\<open>DefaultTLSConfiguration\<close>; the receiver is not used.\<close>

definition DefaultTLSConfiguration :: "WebServer \<Rightarrow> tls_Config" where
  "DefaultTLSConfiguration s =
     \<lparr>Certificates = [],
      NameToCertificate = [],
      NextProtos = [''http/1.1''],
      CipherSuites =
        [TLS_ECDHE_ECDSA_WITH_AES_128_GCM_SHA256,
         TLS_ECDHE_RSA_WITH_AES_128_GCM_SHA256,
         TLS_ECDHE_ECDSA_WITH_AES_128_CBC_SHA,
         TLS_ECDHE_RSA_WITH_AES_128_CBC_SHA,
         TLS_ECDHE_RSA_WITH_3DES_EDE_CBC_SHA,
         TLS_RSA_WITH_AES_128_CBC_SHA,
         TLS_RSA_WITH_3DES_EDE_CBC_SHA],
      PreferServerCipherSuites = True,
      SessionTicketsDisabled = False\<rparr>"

text \<open>
  \<open>BuildNameToCertificate\<close> of \<open>tls.Config\<close>: the map is rebuilt from the certificates,
  each under the names of its leaf.
\<close>

definition BuildNameToCertificate :: "tls_Config \<Rightarrow> tls_Config" where
  "BuildNameToCertificate config =
     config\<lparr>NameToCertificate :=
       concat (map (\<lambda>cert. map (\<lambda>name. (name, cert)) (leaf_names cert)) (Certificates config))\<rparr>"

definition addTLSCert :: "WebServer \<Rightarrow> tls_Certificate \<Rightarrow> WebServer" where
  "addTLSCert s cert =
     (let config = (case TLSConfig (Server s) of
                      None \<Rightarrow> DefaultTLSConfiguration s
                    | Some c \<Rightarrow> c)
      in s\<lparr>Server := (Server s)\<lparr>TLSConfig :=
             Some (BuildNameToCertificate
                     (config\<lparr>Certificates := Certificates config @ [cert]\<rparr>))\<rparr>\<rparr>)"

text \<open>
  \<open>AddTLSCertificate\<close> and \<open>AddTLSCertificateFromFile\<close>. \<open>pair\<close> is what
  \<open>tls.X509KeyPair\<close> (or \<open>tls.LoadX509KeyPair\<close>) returns for the two arguments.
\<close>

definition AddTLSCertificate ::
  "WebServer \<Rightarrow> string \<Rightarrow> string \<Rightarrow> error + tls_Certificate \<Rightarrow> WebServer \<times> error option" where
  "AddTLSCertificate s certPEMBlock keyPEMBlock pair =
     (case pair of
        Inl err \<Rightarrow> (s, Some err)
      | Inr cert \<Rightarrow> (addTLSCert s cert, None))"

definition AddTLSCertificateFromFile ::
  "WebServer \<Rightarrow> string \<Rightarrow> string \<Rightarrow> error + tls_Certificate \<Rightarrow> WebServer \<times> error option" where
  "AddTLSCertificateFromFile s certFile keyFile pair =
     (case pair of
        Inl err \<Rightarrow> (s, Some err)
      | Inr cert \<Rightarrow> (addTLSCert s cert, None))"

text \<open>The method \<open>Listen\<close> of the server; \<open>bind\<close> is passed on to the listener's \<open>Listen\<close>.\<close>

definition WebServer_Listen :: "WebServer \<Rightarrow> string \<Rightarrow> error option \<Rightarrow> WebServer \<times> error option" where
  "WebServer_Listen s addr bind =
     (if Listening (listener s) then (s, Some errListenerAlreadyCreated)
      else
        (case Listen ''tcp'' addr (TLSConfig (Server s)) bind of
           Inl err \<Rightarrow> (s, Some err)
         | Inr l \<Rightarrow> (s\<lparr>listener := l, Server := (Server s)\<lparr>Addr := addr\<rparr>\<rparr>, None)))"

text \<open>
  What \<open>Server.Serve\<close> of \<open>net/http\<close> does to the server's TLS configuration before its
  accept loop. \<open>http2\<close> says whether the runtime's \<open>net/http\<close> configures HTTP/2 (Go 1.6
  and later, unless switched off with \<open>GODEBUG=http2server=0\<close>). It then does so when
  the configuration is nil or names the protocol \<open>h2\<close>: a nil configuration is replaced
  by a new one, server cipher-suite preference is switched on, and \<open>h2\<close> and
  \<open>http/1.1\<close> are appended to the protocols that lack them.
\<close>

definition http2_ConfigureServer :: "tls_Config option \<Rightarrow> tls_Config" where
  "http2_ConfigureServer tlsc =
     (let c0 = (case tlsc of
                  None \<Rightarrow>
                    \<lparr>Certificates = [], NameToCertificate = [], NextProtos = [],
                     CipherSuites = [], PreferServerCipherSuites = False,
                     SessionTicketsDisabled = False\<rparr>
                | Some c \<Rightarrow> c);
          c1 = c0\<lparr>PreferServerCipherSuites := True\<rparr>;
          c2 = (if ''h2'' \<in> set (NextProtos c1) then c1
                else c1\<lparr>NextProtos := NextProtos c1 @ [''h2'']\<rparr>)
      in if ''http/1.1'' \<in> set (NextProtos c2) then c2
         else c2\<lparr>NextProtos := NextProtos c2 @ [''http/1.1'']\<rparr>)"

definition setupHTTP2_Serve :: "bool \<Rightarrow> http_Server \<Rightarrow> http_Server" where
  "setupHTTP2_Serve http2 srv =
     (if http2 \<and> (case TLSConfig srv of
                    None \<Rightarrow> True
                  | Some c \<Rightarrow> ''h2'' \<in> set (NextProtos c))
      then srv\<lparr>TLSConfig := Some (http2_ConfigureServer (TLSConfig srv))\<rparr>
      else srv)"

text \<open>
  \<open>Serve\<close>, up to the point where its goroutine is in the accept loop. The third
  component is the goroutine it started: the listener that the accept loop
  \<open>s.Server.Serve(s.listener)\<close> runs on, or \<open>None\<close> when no goroutine was started. The
  goroutine sets the hook, closes \<open>servingChan\<close> (on which \<open>Serve\<close> returns) and calls
  \<open>s.Server.Serve\<close>, which prepares HTTP/2 as the runtime \<open>http2\<close> has it.
\<close>

definition Serve ::
  "WebServer \<Rightarrow> bool \<Rightarrow> WebServer \<times> error option \<times> WebServerListener option" where
  "Serve s http2 =
     (if \<not> Listening (listener s) then (s, Some errListenerNotYetCreated, None)
      else (s\<lparr>Server := setupHTTP2_Serve http2 ((Server s)\<lparr>Server_ConnState := True\<rparr>)\<rparr>,
            None, Some (listener s)))"

text \<open>
  \<open>Shutdown\<close>; \<open>r\<close> is the result of the underlying Close. \<open>Shutdown\<close> has no result
  value: the error that \<open>s.listener.Close()\<close> returns is dropped. The effects of Close
  are kept.
\<close>

definition Shutdown :: "WebServer \<Rightarrow> error option \<Rightarrow> panic + (WebServer \<times> effect list)" where
  "Shutdown s r =
     (if \<not> Listening (listener s) then Inr (s, [])
      else
        (let s1 = s\<lparr>Server := (Server s)\<lparr>disableKeepAlives := True\<rparr>\<rparr> in
         case Close (listener s1) r of
           Inl p \<Rightarrow> Inl p
         | Inr (l', err, effs) \<Rightarrow> Inr (s1\<lparr>listener := l'\<rparr>, effs)))"

definition RoutineStarted :: "WebServer \<Rightarrow> panic + WebServer" where
  "RoutineStarted s = wg_Add s 1"

definition RoutineFinished :: "WebServer \<Rightarrow> panic + WebServer" where
  "RoutineFinished s = wg_Done s"

text \<open>The last statement of \<open>connStateTracker\<close>: the call of the user's hook, if any.\<close>

definition notify :: "WebServer \<Rightarrow> conn \<Rightarrow> http_ConnState \<Rightarrow> WebServer" where
  "notify s c state =
     (case ConnState s of
        None \<Rightarrow> s
      | Some calls \<Rightarrow> s\<lparr>ConnState := Some (calls @ [(c, state)])\<rparr>)"

definition connStateTracker :: "WebServer \<Rightarrow> conn \<Rightarrow> http_ConnState \<Rightarrow> panic + WebServer" where
  "connStateTracker s c state =
     and_then
       (case state of
          StateNew \<Rightarrow> wg_Add s 1
        | StateActive \<Rightarrow> wg_Add s 1
        | StateIdle \<Rightarrow>
            and_then (if c \<notin> idleConns s then wg_Done s else Inr s)
              (\<lambda>s1. wg_Done (s1\<lparr>idleConns := insert c (idleConns s1)\<rparr>))
        | StateHijacked \<Rightarrow>
            (if c \<in> idleConns s then Inr (s\<lparr>idleConns := idleConns s - {c}\<rparr>)
             else wg_Add s (- 2))
        | StateClosed \<Rightarrow>
            (if c \<in> idleConns s then Inr (s\<lparr>idleConns := idleConns s - {c}\<rparr>)
             else wg_Add s (- 2)))
       (\<lambda>s2. Inr (notify s2 c state))"


section \<open>Sequences of calls\<close>

text \<open>
  What reaches the counter during a serve session: the transitions that the protocol
  engine reports to \<open>connStateTracker\<close>, and the handlers' calls of \<open>RoutineStarted\<close> and
  \<open>RoutineFinished\<close>. They are processed one after the other; a panic ends the run.
\<close>

datatype event = Transition conn http_ConnState | Started | Finished

fun step :: "WebServer \<Rightarrow> event \<Rightarrow> panic + WebServer" where
  "step s (Transition c state) = connStateTracker s c state"
| "step s Started = RoutineStarted s"
| "step s Finished = RoutineFinished s"

fun process :: "WebServer \<Rightarrow> event list \<Rightarrow> panic + WebServer" where
  "process s [] = Inr s"
| "process s (e # es) = and_then (step s e) (\<lambda>s'. process s' es)"


text \<open>
  \<open>s.wg.Wait()\<close> blocks until the counter is zero. While the goroutine of \<open>Serve\<close> is
  blocked, the events \<open>later\<close> are processed by the other goroutines. The result is the
  state in which Wait returns, or \<open>None\<close> when the counter was never zero (Wait is still
  blocked after the last event, or another goroutine has panicked).
\<close>

fun wg_Wait :: "WebServer \<Rightarrow> event list \<Rightarrow> WebServer option" where
  "wg_Wait s [] = (if wg s = 0 then Some s else None)"
| "wg_Wait s (e # es) =
     (if wg s = 0 then Some s
      else (case step s e of Inl p \<Rightarrow> None | Inr s' \<Rightarrow> wg_Wait s' es))"

text \<open>
  The goroutine of \<open>Serve\<close> after \<open>s.Server.Serve(s.listener)\<close> has returned \<open>err\<close> in
  state \<open>s\<close>. The result is the list of values it sends on \<open>errChan\<close>.
\<close>

definition Serve_goroutine :: "WebServer \<Rightarrow> error \<Rightarrow> event list \<Rightarrow> error list" where
  "Serve_goroutine s err later =
     (if is_ErrListenerClosed err then
        (case wg_Wait s later of
           None \<Rightarrow> []
         | Some s' \<Rightarrow> [ErrGracefulShutdown err])
      else [err])"

text \<open>Calls on a listener: \<open>Listening\<close>, \<open>Accept\<close> and \<open>Close\<close>, with the transport's results.\<close>

datatype listener_op =
    OpListening
  | OpAccept "conn option \<times> error option"
  | OpClose "error option"

fun apply_op :: "WebServerListener \<Rightarrow> listener_op \<Rightarrow> panic + WebServerListener" where
  "apply_op l OpListening = Inr l"
| "apply_op l (OpAccept r) = and_then (Accept l r) (\<lambda>res. Inr l)"
| "apply_op l (OpClose r) = and_then (Close l r) (\<lambda>res. Inr (fst res))"

fun run_ops :: "WebServerListener \<Rightarrow> listener_op list \<Rightarrow> panic + WebServerListener" where
  "run_ops l [] = Inr l"
| "run_ops l (x # xs) = and_then (apply_op l x) (\<lambda>l'. run_ops l' xs)"

text \<open>The value of \<open>Listening()\<close> before the first call and after each call.\<close>

fun flag_history :: "WebServerListener \<Rightarrow> listener_op list \<Rightarrow> bool list" where
  "flag_history l [] = [Listening l]"
| "flag_history l (x # xs) =
     Listening l # (case apply_op l x of Inl p \<Rightarrow> [] | Inr l' \<Rightarrow> flag_history l' xs)"

text \<open>
  The states of a server on which no \<open>Listen\<close> has succeeded yet: a new server, and what
  the following make of it: \<open>Listen\<close> calls that fail, \<open>Serve\<close>, \<open>Shutdown\<close>, the
  registration calls, adding certificates, and assignments to the exported fields
  \<open>Server\<close> and \<open>ConnState\<close>.
\<close>

inductive before_Listen :: "WebServer \<Rightarrow> bool" where
  fresh: "before_Listen New"
| failed_Listen:
    "before_Listen s \<Longrightarrow> WebServer_Listen s addr bind = (s', Some err) \<Longrightarrow> before_Listen s'"
| after_Serve: "before_Listen s \<Longrightarrow> before_Listen (fst (Serve s http2))"
| after_AddTLSCertificate:
    "before_Listen s \<Longrightarrow> before_Listen (fst (AddTLSCertificate s certPEMBlock keyPEMBlock pair))"
| after_AddTLSCertificateFromFile:
    "before_Listen s \<Longrightarrow> before_Listen (fst (AddTLSCertificateFromFile s certFile keyFile pair))"
| set_Server: "before_Listen s \<Longrightarrow> before_Listen (s\<lparr>Server := srv\<rparr>)"
| set_ConnState: "before_Listen s \<Longrightarrow> before_Listen (s\<lparr>ConnState := hook\<rparr>)"
| after_Shutdown: "before_Listen s \<Longrightarrow> Shutdown s r = Inr (s', effs) \<Longrightarrow> before_Listen s'"
| after_RoutineStarted: "before_Listen s \<Longrightarrow> RoutineStarted s = Inr s' \<Longrightarrow> before_Listen s'"
| after_RoutineFinished: "before_Listen s \<Longrightarrow> RoutineFinished s = Inr s' \<Longrightarrow> before_Listen s'"

text \<open>
  The states that a server can be in: a new server, and what any calls of \<open>Listen\<close>,
  \<open>Serve\<close>, \<open>Shutdown\<close>, the tracker and the registration calls, adding certificates,
  and assignments to the exported fields \<open>Server\<close> and \<open>ConnState\<close> make of it.
\<close>

inductive reachable :: "WebServer \<Rightarrow> bool" where
  reach_New: "reachable New"
| reach_Listen: "reachable s \<Longrightarrow> reachable (fst (WebServer_Listen s addr bind))"
| reach_Serve: "reachable s \<Longrightarrow> reachable (fst (Serve s http2))"
| reach_AddTLSCertificate:
    "reachable s \<Longrightarrow> reachable (fst (AddTLSCertificate s certPEMBlock keyPEMBlock pair))"
| reach_AddTLSCertificateFromFile:
    "reachable s \<Longrightarrow> reachable (fst (AddTLSCertificateFromFile s certFile keyFile pair))"
| reach_set_Server: "reachable s \<Longrightarrow> reachable (s\<lparr>Server := srv\<rparr>)"
| reach_set_ConnState: "reachable s \<Longrightarrow> reachable (s\<lparr>ConnState := hook\<rparr>)"
| reach_Shutdown: "reachable s \<Longrightarrow> Shutdown s r = Inr (s', effs) \<Longrightarrow> reachable s'"
| reach_step: "reachable s \<Longrightarrow> step s e = Inr s' \<Longrightarrow> reachable s'"


section \<open>The specification's words\<close>

text \<open>
  The transition table of the specification (section 4.2): from the previous idle
  membership of the connection and the new state to the counter delta and the new
  membership.
\<close>

fun spec_transition_rule :: "bool \<Rightarrow> http_ConnState \<Rightarrow> int \<times> bool" where
  "spec_transition_rule idle StateNew = (1, idle)"
| "spec_transition_rule idle StateActive = (1, idle)"
| "spec_transition_rule False StateIdle = (- 2, True)"
| "spec_transition_rule True StateIdle = (- 1, True)"
| "spec_transition_rule True StateHijacked = (0, False)"
| "spec_transition_rule True StateClosed = (0, False)"
| "spec_transition_rule False StateHijacked = (- 2, False)"
| "spec_transition_rule False StateClosed = (- 2, False)"


text \<open>
  What the idle set holds in the code: some Idle transition of the connection has been
  processed, and no Hijacked or Closed transition of it after that one.
\<close>

fun idle_pending :: "event list \<Rightarrow> conn \<Rightarrow> bool" where
  "idle_pending [] c = False"
| "idle_pending (e # es) c =
     (idle_pending es c
      \<or> (e = Transition c StateIdle
         \<and> Transition c StateHijacked \<notin> set es
         \<and> Transition c StateClosed \<notin> set es))"

text \<open>
  The session of \<open>testBasicServer\<close> in \<open>TestBasicServerHTTP\<close>: \<open>Listen\<close>, \<open>Serve\<close> and
  \<open>Shutdown\<close> on a new server without certificates, every transport call succeeding, on
  a runtime that configures HTTP/2.
\<close>

definition session_listening :: WebServer where
  "session_listening = fst (WebServer_Listen New ''127.0.0.1:44380'' None)"

definition session_serving :: WebServer where
  "session_serving = fst (Serve session_listening True)"

definition session_shut_down :: WebServer where
  "session_shut_down =
     (session_serving
        \<lparr>Server := (Server session_serving)\<lparr>disableKeepAlives := True\<rparr>,
         listener := (listener session_serving)\<lparr>listening := 0\<rparr>\<rparr>)"

text \<open>
  The session of \<open>testBasicServer\<close> in \<open>TestBasicServerHTTPS\<close>: the same calls on a server
  to which a certificate has been added.
\<close>

definition test_certificate :: tls_Certificate where
  "test_certificate = \<lparr>Certificate = [''srv1.localhost.crt''], leaf_names = [''srv1.localhost'']\<rparr>"

definition tls_session_configured :: WebServer where
  "tls_session_configured =
     fst (AddTLSCertificateFromFile New ''./test/srv1.localhost.crt'' ''./test/srv1.localhost.key''
            (Inr test_certificate))"

definition tls_session_listening :: WebServer where
  "tls_session_listening = fst (WebServer_Listen tls_session_configured ''127.0.0.1:44380'' None)"

definition tls_session_serving :: WebServer where
  "tls_session_serving = fst (Serve tls_session_listening True)"

definition tls_session_shut_down :: WebServer where
  "tls_session_shut_down =
     (tls_session_serving
        \<lparr>Server := (Server tls_session_serving)\<lparr>disableKeepAlives := True\<rparr>,
         listener := (listener tls_session_serving)\<lparr>listening := 0\<rparr>\<rparr>)"


section \<open>Basic facts\<close>

lemma and_then_Inr [simp]: "and_then (Inr x) f = f x"
  by (simp add: and_then_def)

lemma and_then_Inl [simp]: "and_then (Inl p) f = Inl p"
  by (simp add: and_then_def)

lemma and_then_eq_Inr: "and_then m f = Inr y \<longleftrightarrow> (\<exists>x. m = Inr x \<and> f x = Inr y)"
  by (cases m) simp_all

lemma notify_fields [simp]:
  "wg (notify s c st) = wg s"
  "idleConns (notify s c st) = idleConns s"
  "listener (notify s c st) = listener s"
  "Server (notify s c st) = Server s"
  by (simp_all add: notify_def split: option.splits)

text \<open>
  The counter after an Add, read as a signed value; and the outcome of an Add of one of
  the deltas that the package uses, on a counter that is not negative: it succeeds exactly
  when the sum lies between 0 and the largest int32.
\<close>

lemma wg_Add_sint:
  "sint (wg s + word_of_int d) = (sint (wg s) + d + 2 ^ 31) mod 2 ^ 32 - 2 ^ 31"
proof -
  have "wg s + word_of_int d = word_of_int (sint (wg s) + d)" by simp
  then show ?thesis by (simp only: int_word_sint) simp
qed

lemma wg_Add_result:
  assumes "0 \<le> sint (wg s)" and "- 2 \<le> d" and "d \<le> 1"
  shows "wg_Add s d =
           (if 0 \<le> sint (wg s) + d \<and> sint (wg s) + d < 2 ^ 31
            then Inr (s\<lparr>wg := wg s + word_of_int d\<rparr>)
            else Inl NegativeWaitGroupCounter)"
    and "0 \<le> sint (wg s) + d \<Longrightarrow> sint (wg s) + d < 2 ^ 31 \<Longrightarrow>
           sint (wg s + word_of_int d) = sint (wg s) + d"
proof -
  have up: "sint (wg s) < 2 ^ 31" using sint_lt [of "wg s"] by simp
  show r: "sint (wg s + word_of_int d) = sint (wg s) + d"
    if "0 \<le> sint (wg s) + d" "sint (wg s) + d < 2 ^ 31"
    using that by (simp add: wg_Add_sint)
  show "wg_Add s d =
           (if 0 \<le> sint (wg s) + d \<and> sint (wg s) + d < 2 ^ 31
            then Inr (s\<lparr>wg := wg s + word_of_int d\<rparr>)
            else Inl NegativeWaitGroupCounter)"
  proof (cases "0 \<le> sint (wg s) + d \<and> sint (wg s) + d < 2 ^ 31")
    case True
    with r show ?thesis by (simp add: wg_Add_def)
  next
    case False
    then consider "sint (wg s) + d < 0" | "sint (wg s) + d = 2 ^ 31"
      using up assms(3) by linarith
    then have "sint (wg s + word_of_int d) < 0"
    proof cases
      case 1
      moreover have "0 \<le> sint (wg s) + d + 2 ^ 31" using assms(1,2) by simp
      ultimately show ?thesis by (simp add: wg_Add_sint)
    next
      case 2
      then have "sint (wg s) + d + 2 ^ 31 = 2 ^ 32" by simp
      then show ?thesis by (simp only: wg_Add_sint) simp
    qed
    with False show ?thesis by (simp add: wg_Add_def)
  qed
qed

lemma wg_Add_fields:
  assumes "wg_Add s d = Inr s'"
  shows "idleConns s' = idleConns s" and "listener s' = listener s"
    and "Server s' = Server s" and "ConnState s' = ConnState s" and "0 \<le> sint (wg s')"
  using assms by (auto simp: wg_Add_def Let_def split: if_splits)


section \<open>The listener\<close>

lemma Close_result:
  "Close l r = Inr (l', e, effs) \<Longrightarrow> \<not> Listening l' \<and> Listener l' = Listener l"
  by (auto simp: Close_def Listening_def Let_def split: if_splits option.splits)

lemma apply_op_keeps:
  "apply_op l x = Inr l' \<Longrightarrow> Listener l' = Listener l \<and> (\<not> Listening l \<longrightarrow> \<not> Listening l')"
  by (cases x)
     (auto simp: and_then_eq_Inr Accept_def Close_def Let_def Listening_def
           split: option.splits if_splits)

lemma run_ops_keeps:
  "run_ops l xs = Inr l' \<Longrightarrow> Listener l' = Listener l \<and> (\<not> Listening l \<longrightarrow> \<not> Listening l')"
proof (induction xs arbitrary: l)
  case Nil
  then show ?case by simp
next
  case (Cons x xs)
  then obtain l1 where a: "apply_op l x = Inr l1" and b: "run_ops l1 xs = Inr l'"
    by (auto simp: and_then_eq_Inr)
  from apply_op_keeps [OF a] Cons.IH [OF b] show ?case by simp
qed

text \<open>
  C4. When the embedded listener is set and its Accept fails with \<open>err\<close>: with the flag
  false the caller gets \<open>ErrListenerClosed\<close> wrapping \<open>err\<close>, with the flag true it gets
  \<open>err\<close> itself. After a Close, and whatever calls follow it, a failing Accept reports
  \<open>ErrListenerClosed\<close>, whatever the transport's error is.
\<close>

theorem Accept_failure_kind:
  assumes "Listener l = Some u"
  shows "(\<not> Listening l \<longrightarrow> Accept l (c, Some err) = Inr (None, Some (ErrListenerClosed err)))
       \<and> (Listening l \<longrightarrow> Accept l (c, Some err) = Inr (c, Some err))
       \<and> (\<forall>r l1 e effs xs l2.
             Close l r = Inr (l1, e, effs) \<and> run_ops l1 xs = Inr l2 \<longrightarrow>
             Accept l2 (c, Some err) = Inr (None, Some (ErrListenerClosed err)))"
proof (intro conjI allI impI)
  show "Accept l (c, Some err) = Inr (None, Some (ErrListenerClosed err))" if "\<not> Listening l"
    using that assms by (simp add: Accept_def)
  show "Accept l (c, Some err) = Inr (c, Some err)" if "Listening l"
    using that assms by (simp add: Accept_def)
  fix r l1 e effs xs l2
  assume h: "Close l r = Inr (l1, e, effs) \<and> run_ops l1 xs = Inr l2"
  from h Close_result have "\<not> Listening l1" "Listener l1 = Listener l" by blast+
  with h run_ops_keeps have "\<not> Listening l2" "Listener l2 = Some u" using assms by fastforce+
  then show "Accept l2 (c, Some err) = Inr (None, Some (ErrListenerClosed err))"
    by (simp add: Accept_def)
qed

theorem Accept_failure_kind_witness:
  "Accept \<lparr>Listener = Some \<lparr>network = ''tcp'', laddr = '':80'', tlsConfig = None\<rparr>, listening = 0\<rparr>
          (None, Some (NetError ''closed'')) = Inr (None, Some (ErrListenerClosed (NetError ''closed'')))
   \<and> Accept \<lparr>Listener = Some \<lparr>network = ''tcp'', laddr = '':80'', tlsConfig = None\<rparr>, listening = 1\<rparr>
          (None, Some (NetError ''timeout'')) = Inr (None, Some (NetError ''timeout''))
   \<and> Close \<lparr>Listener = Some \<lparr>network = ''tcp'', laddr = '':80'', tlsConfig = None\<rparr>, listening = 1\<rparr> None
       = Inr (\<lparr>Listener = Some \<lparr>network = ''tcp'', laddr = '':80'', tlsConfig = None\<rparr>, listening = 0\<rparr>,
              None, [AtomicStoreListening 0, UnderlyingClose])
   \<and> run_ops \<lparr>Listener = Some \<lparr>network = ''tcp'', laddr = '':80'', tlsConfig = None\<rparr>, listening = 0\<rparr>
         [OpListening, OpClose None]
       = Inr \<lparr>Listener = Some \<lparr>network = ''tcp'', laddr = '':80'', tlsConfig = None\<rparr>, listening = 0\<rparr>
   \<and> Accept \<lparr>Listener = Some \<lparr>network = ''tcp'', laddr = '':80'', tlsConfig = None\<rparr>, listening = 0\<rparr>
          (None, Some (NetError ''reset'')) = Inr (None, Some (ErrListenerClosed (NetError ''reset'')))"
  (is "?A \<and> ?B \<and> ?C \<and> ?D \<and> ?E")
proof -
  let ?u = "\<lparr>network = ''tcp'', laddr = '':80'', tlsConfig = None\<rparr>"
  let ?open = "\<lparr>Listener = Some ?u, listening = 1\<rparr>"
  let ?closed = "\<lparr>Listener = Some ?u, listening = 0\<rparr>"
  have n: "\<not> Listening ?closed" and y: "Listening ?open"
    by (simp_all add: Listening_def)
  have a: ?A
    using Accept_failure_kind [of ?closed ?u None "NetError ''closed''"] n by simp
  have b: ?B
    using Accept_failure_kind [of ?open ?u None "NetError ''timeout''"] y by simp
  have c: ?C by (simp add: Close_def Listening_def)
  have d: ?D by (simp add: Close_def Listening_def)
  have u: "Listener ?open = Some ?u" by simp
  note after_Close =
    Accept_failure_kind [OF u, of None "NetError ''reset''", THEN conjunct2, THEN conjunct2,
      rule_format]
  have e: ?E by (rule after_Close [OF conjI [OF c d]])
  from a b c d e show ?thesis by blast
qed

text \<open>
  C5. The first Close of a listener that is accepting (with its embedded listener set)
  stores false in the flag, then closes the underlying listener, and returns that
  listener's result. Every later Close returns no error, performs no effect and leaves
  the listener as it is, with \<open>Listening()\<close> false.
\<close>

theorem Close_idempotent:
  assumes "Listening l" and "Listener l = Some u"
  shows "\<exists>l1. Close l r = Inr (l1, r, [AtomicStoreListening 0, UnderlyingClose])
            \<and> \<not> Listening l1
            \<and> (\<forall>r'. Close l1 r' = Inr (l1, None, []))"
  using assms by (simp add: Close_def Listening_def)

theorem Close_idempotent_witness:
  "Listening \<lparr>Listener = Some \<lparr>network = ''tcp'', laddr = '':80'', tlsConfig = None\<rparr>, listening = 1\<rparr>
   \<and> (\<exists>l1. Close \<lparr>Listener = Some \<lparr>network = ''tcp'', laddr = '':80'', tlsConfig = None\<rparr>, listening = 1\<rparr>
              (Some (NetError ''close failed''))
            = Inr (l1, Some (NetError ''close failed''), [AtomicStoreListening 0, UnderlyingClose])
          \<and> \<not> Listening l1
          \<and> (\<forall>r'. Close l1 r' = Inr (l1, None, [])))"
proof -
  let ?u = "\<lparr>network = ''tcp'', laddr = '':80'', tlsConfig = None\<rparr>"
  let ?open = "\<lparr>Listener = Some ?u, listening = 1\<rparr>"
  have y: "Listening ?open" by (simp add: Listening_def)
  have u: "Listener ?open = Some ?u" by simp
  from Close_idempotent [OF y u, of "Some (NetError ''close failed'')"] y show ?thesis by blast
qed

lemma flag_history_False:
  "\<not> Listening l \<Longrightarrow> \<exists>j. flag_history l xs = replicate (Suc j) False"
proof (induction xs arbitrary: l)
  case Nil
  then show ?case by simp
next
  case (Cons x xs)
  show ?case
  proof (cases "apply_op l x")
    case (Inl p)
    with Cons.prems show ?thesis by simp
  next
    case (Inr l')
    with Cons.prems apply_op_keeps have "\<not> Listening l'" by blast
    from Cons.IH [OF this] obtain j where "flag_history l' xs = replicate (Suc j) False" ..
    with Inr Cons.prems have "flag_history l (x # xs) = replicate (Suc (Suc j)) False" by simp
    then show ?thesis ..
  qed
qed

lemma flag_history_shape:
  "\<exists>i j. flag_history l xs = replicate i True @ replicate j False"
proof (induction xs arbitrary: l)
  case Nil
  show ?case
  proof (cases "Listening l")
    case True
    then have "flag_history l [] = replicate 1 True @ replicate 0 False" by simp
    then show ?thesis by blast
  next
    case False
    then have "flag_history l [] = replicate 0 True @ replicate 1 False" by simp
    then show ?thesis by blast
  qed
next
  case (Cons x xs)
  show ?case
  proof (cases "Listening l")
    case False
    from flag_history_False [OF this]
    obtain j where "flag_history l (x # xs) = replicate (Suc j) False" ..
    then have "flag_history l (x # xs) = replicate 0 True @ replicate (Suc j) False" by simp
    then show ?thesis by blast
  next
    case True
    show ?thesis
    proof (cases "apply_op l x")
      case (Inl p)
      with True have "flag_history l (x # xs) = replicate 1 True @ replicate 0 False" by simp
      then show ?thesis by blast
    next
      case (Inr l')
      from Cons.IH obtain i j where "flag_history l' xs = replicate i True @ replicate j False"
        by blast
      with Inr True have "flag_history l (x # xs) = replicate (Suc i) True @ replicate j False"
        by simp
      then show ?thesis by blast
    qed
  qed
qed

lemma run_ops_Listen:
  "Listen netw addr tlsc bind = Inr l \<Longrightarrow> \<exists>l'. run_ops l xs = Inr l'"
proof -
  have "Listener l \<noteq> None \<Longrightarrow> \<exists>l'. run_ops l xs = Inr l'" for l
  proof (induction xs arbitrary: l)
    case Nil
    show ?case by simp
  next
    case (Cons x xs)
    from Cons.prems have "\<exists>l1. apply_op l x = Inr l1"
      by (cases x) (auto simp: Accept_def Close_def Let_def split: option.splits)
    then obtain l1 where a: "apply_op l x = Inr l1" ..
    with apply_op_keeps Cons.prems have "Listener l1 \<noteq> None" by metis
    from Cons.IH [OF this] a show ?case by simp
  qed
  moreover assume "Listen netw addr tlsc bind = Inr l"
  then have "Listener l \<noteq> None" by (auto simp: Listen_def split: sum.splits)
  ultimately show ?thesis by blast
qed

text \<open>
  C7. A listener returned by a successful \<open>Listen\<close> has the flag true, no sequence of
  \<open>Listening\<close>, \<open>Accept\<close> and \<open>Close\<close> calls on it panics, and the values of the flag over
  such a sequence are a run of true followed by a run of false: the flag goes from true to
  false at most once and never from false to true.
\<close>

theorem accepting_flag_monotone:
  assumes "Listen netw addr tlsc bind = Inr l"
  shows "Listening l
       \<and> (\<exists>l'. run_ops l xs = Inr l')
       \<and> length (flag_history l xs) = Suc (length xs)
       \<and> (\<exists>i j. flag_history l xs = replicate (Suc i) True @ replicate j False)"
proof -
  from assms have L: "Listening l"
    by (auto simp: Listen_def Listening_def split: sum.splits)
  obtain i j where h: "flag_history l xs = replicate i True @ replicate j False"
    using flag_history_shape by blast
  have "flag_history l xs \<noteq> [] \<and> hd (flag_history l xs) = True"
    using L by (cases xs) simp_all
  with h have "i \<noteq> 0" by (cases i; cases j) auto
  then obtain i' where "i = Suc i'" by (cases i) auto
  moreover have "run_ops l ys = Inr l' \<Longrightarrow> length (flag_history l ys) = Suc (length ys)" for l l' ys
    by (induction ys arbitrary: l) (auto simp: and_then_eq_Inr)
  ultimately show ?thesis using h L run_ops_Listen [OF assms, of xs] by blast
qed

theorem accepting_flag_monotone_witness:
  "Listen ''tcp'' '':80'' None None
     = Inr \<lparr>Listener = Some \<lparr>network = ''tcp'', laddr = '':80'', tlsConfig = None\<rparr>, listening = 1\<rparr>
   \<and> flag_history \<lparr>Listener = Some \<lparr>network = ''tcp'', laddr = '':80'', tlsConfig = None\<rparr>, listening = 1\<rparr>
        [OpAccept (Some 1, None), OpClose None, OpAccept (None, Some (NetError ''closed'')), OpClose None]
     = [True, True, False, False, False]
   \<and> (\<exists>i j. flag_history \<lparr>Listener = Some \<lparr>network = ''tcp'', laddr = '':80'', tlsConfig = None\<rparr>, listening = 1\<rparr>
        [OpAccept (Some 1, None), OpClose None, OpAccept (None, Some (NetError ''closed'')), OpClose None]
     = replicate (Suc i) True @ replicate j False)"
proof -
  let ?l = "\<lparr>Listener = Some \<lparr>network = ''tcp'', laddr = '':80'', tlsConfig = None\<rparr>, listening = 1\<rparr>"
  have a: "Listen ''tcp'' '':80'' None None = Inr ?l" by (simp add: Listen_def net_Listen_def)
  have b: "flag_history ?l [OpAccept (Some 1, None), OpClose None,
              OpAccept (None, Some (NetError ''closed'')), OpClose None]
            = [True, True, False, False, False]"
    by (simp add: Accept_def Close_def Listening_def)
  from accepting_flag_monotone [OF a] a b show ?thesis by blast
qed


section \<open>The connection state tracker\<close>

lemma tracker_New_Active:
  assumes "0 \<le> sint (wg s)" and "st = StateNew \<or> st = StateActive"
  shows "connStateTracker s c st =
           (if sint (wg s) + 1 < 2 ^ 31 then Inr (notify (s\<lparr>wg := wg s + 1\<rparr>) c st)
            else Inl NegativeWaitGroupCounter)"
  using assms wg_Add_result(1) [OF assms(1), of 1]
  by (auto simp: connStateTracker_def)

lemma tracker_Idle_again:
  assumes "0 \<le> sint (wg s)" and "c \<in> idleConns s"
  shows "connStateTracker s c StateIdle =
           (if 0 \<le> sint (wg s) - 1 then Inr (notify (s\<lparr>wg := wg s - 1\<rparr>) c StateIdle)
            else Inl NegativeWaitGroupCounter)"
proof -
  let ?s1 = "s\<lparr>idleConns := insert c (idleConns s)\<rparr>"
  have "?s1 = s" using assms(2) by (simp add: insert_absorb)
  moreover have "sint (wg s) - 1 < 2 ^ 31" using sint_lt [of "wg s"] by simp
  ultimately show ?thesis
    using assms wg_Add_result(1) [OF assms(1), of "- 1"]
    by (auto simp: connStateTracker_def wg_Done_def)
qed

lemma tracker_Idle_first:
  assumes "0 \<le> sint (wg s)" and "c \<notin> idleConns s"
  shows "connStateTracker s c StateIdle =
           (if 0 \<le> sint (wg s) - 2
            then Inr (notify (s\<lparr>idleConns := insert c (idleConns s), wg := wg s - 2\<rparr>) c StateIdle)
            else Inl NegativeWaitGroupCounter)"
proof -
  have up: "sint (wg s) < 2 ^ 31" using sint_lt [of "wg s"] by simp
  show ?thesis
  proof (cases "0 \<le> sint (wg s) - 1")
    case False
    with up assms wg_Add_result(1) [OF assms(1), of "- 1"] show ?thesis
      by (auto simp: connStateTracker_def wg_Done_def)
  next
    case True
    let ?s1 = "s\<lparr>wg := wg s - 1\<rparr>"
    let ?s2 = "?s1\<lparr>idleConns := insert c (idleConns ?s1)\<rparr>"
    from True up wg_Add_result [OF assms(1), of "- 1"]
    have a: "wg_Add s (- 1) = Inr ?s1" and b: "sint (wg s - 1) = sint (wg s) - 1"
      by simp_all
    from b True have c: "0 \<le> sint (wg ?s2)" by simp
    from up b wg_Add_result(1) [OF c, of "- 1"]
    have "wg_Add ?s2 (- 1) =
            (if 0 \<le> sint (wg s) - 2 then Inr (?s2\<lparr>wg := wg s - 2\<rparr>)
             else Inl NegativeWaitGroupCounter)"
      by simp
    with a assms(2) show ?thesis
      by (simp add: connStateTracker_def wg_Done_def)
  qed
qed

lemma tracker_Closed_idle:
  assumes "c \<in> idleConns s" and "st = StateHijacked \<or> st = StateClosed"
  shows "connStateTracker s c st = Inr (notify (s\<lparr>idleConns := idleConns s - {c}\<rparr>) c st)"
  using assms by (auto simp: connStateTracker_def)

lemma tracker_Closed_direct:
  assumes "0 \<le> sint (wg s)" and "c \<notin> idleConns s"
    and "st = StateHijacked \<or> st = StateClosed"
  shows "connStateTracker s c st =
           (if 0 \<le> sint (wg s) - 2 then Inr (notify (s\<lparr>wg := wg s - 2\<rparr>) c st)
            else Inl NegativeWaitGroupCounter)"
proof -
  have "sint (wg s) - 2 < 2 ^ 31" using sint_lt [of "wg s"] by simp
  then show ?thesis
    using assms wg_Add_result(1) [OF assms(1), of "- 2"]
    by (auto simp: connStateTracker_def)
qed

lemma sint_wg_shift:
  assumes "0 \<le> sint (wg s) + d" and "sint (wg s) + d < 2 ^ 31"
  shows "sint (wg s + word_of_int d) = sint (wg s) + d"
  using assms by (simp add: wg_Add_sint)

text \<open>
  C2, as the code has it. On a counter that is not negative (as it is in every state that
  a server can be in), \<open>connStateTracker\<close> follows the table of the specification
  whenever the counter plus the table's delta lies between 0 and the largest int32: it
  changes the counter by the delta, gives the connection the table's membership and
  leaves the membership of every other connection as it is. Otherwise the WaitGroup
  panics and there is no resulting state.
\<close>

theorem connStateTracker_table:
  assumes "0 \<le> sint (wg s)"
  shows "(0 \<le> sint (wg s) + fst (spec_transition_rule (c \<in> idleConns s) st)
          \<and> sint (wg s) + fst (spec_transition_rule (c \<in> idleConns s) st) < 2 ^ 31 \<longrightarrow>
            (\<exists>s'. connStateTracker s c st = Inr s'
               \<and> sint (wg s') = sint (wg s) + fst (spec_transition_rule (c \<in> idleConns s) st)
               \<and> (c \<in> idleConns s' \<longleftrightarrow> snd (spec_transition_rule (c \<in> idleConns s) st))
               \<and> (\<forall>d. d \<noteq> c \<longrightarrow> (d \<in> idleConns s' \<longleftrightarrow> d \<in> idleConns s))))
       \<and> (\<not> (0 \<le> sint (wg s) + fst (spec_transition_rule (c \<in> idleConns s) st)
              \<and> sint (wg s) + fst (spec_transition_rule (c \<in> idleConns s) st) < 2 ^ 31) \<longrightarrow>
            connStateTracker s c st = Inl NegativeWaitGroupCounter)"
proof -
  have up: "sint (wg s) < 2 ^ 31" using sint_lt [of "wg s"] by simp
  note shift = sint_wg_shift [of s 1, simplified] sint_wg_shift [of s "- 1", simplified]
    sint_wg_shift [of s "- 2", simplified]
  show ?thesis
  proof (cases "c \<in> idleConns s")
    case True
    with assms up shift show ?thesis
      by (cases st)
         (auto simp: tracker_New_Active tracker_Idle_again tracker_Closed_idle)
  next
    case False
    with assms up shift show ?thesis
      by (cases st)
         (auto simp: tracker_New_Active tracker_Idle_first tracker_Closed_direct)
  qed
qed

theorem connStateTracker_table_witness:
  "0 \<le> sint (wg (New\<lparr>wg := 2\<rparr>))
   \<and> (\<exists>s'. connStateTracker (New\<lparr>wg := 2\<rparr>) 7 StateIdle = Inr s'
         \<and> sint (wg s') = 0 \<and> 7 \<in> idleConns s' \<and> 8 \<notin> idleConns s')
   \<and> connStateTracker (New\<lparr>wg := 1\<rparr>) 7 StateIdle = Inl NegativeWaitGroupCounter
   \<and> connStateTracker (New\<lparr>wg := 2147483647\<rparr>) 7 StateActive = Inl NegativeWaitGroupCounter"
  (is "?A \<and> ?B \<and> ?C \<and> ?D")
proof -
  have a: ?A by simp
  have a1: "0 \<le> sint (wg (New\<lparr>wg := 1\<rparr>))" by simp
  have a2: "0 \<le> sint (wg (New\<lparr>wg := 2147483647\<rparr>))" by simp
  have v: "spec_transition_rule (7 \<in> idleConns (New\<lparr>wg := 2\<rparr>)) StateIdle = (- 2, True)"
          "spec_transition_rule (7 \<in> idleConns (New\<lparr>wg := 1\<rparr>)) StateIdle = (- 2, True)"
          "spec_transition_rule (7 \<in> idleConns (New\<lparr>wg := 2147483647\<rparr>)) StateActive = (1, False)"
          "8 \<notin> idleConns (New\<lparr>wg := 2\<rparr>)"
    by (simp_all add: New_def)
  have b: ?B
    using connStateTracker_table [OF a, of 7 StateIdle] v by auto
  have c: ?C
    using connStateTracker_table [OF a1, of 7 StateIdle] v by simp
  have d: ?D
    using connStateTracker_table [OF a2, of 7 StateActive] v by simp
  from a b c d show ?thesis by blast
qed

text \<open>
  C2, as the specification states it, fails: after the New transition of a connection
  the counter is 1 and the connection is not in the idle set; for its Closed transition
  the table gives the delta \<open>-2\<close>, and the handler panics instead of changing the counter.
\<close>

theorem connStateTracker_table_counterexample:
  "process New [Transition 1 StateNew] = Inr (New\<lparr>wg := 1\<rparr>)
   \<and> spec_transition_rule (1 \<in> idleConns (New\<lparr>wg := 1\<rparr>)) StateClosed = (- 2, False)
   \<and> connStateTracker (New\<lparr>wg := 1\<rparr>) 1 StateClosed = Inl NegativeWaitGroupCounter"
  by (simp add: connStateTracker_def wg_Add_def notify_def New_def)

lemma process_append:
  "process s (xs @ ys) = and_then (process s xs) (\<lambda>s'. process s' ys)"
  by (induction xs arbitrary: s) (auto simp: and_then_def split: sum.splits)

text \<open>
  The lifecycles that the comment in \<open>connStateTracker\<close> describes leave the counter and
  the idle set as they were, when the counter has room for them: new, active, closed; and
  new, active, idle, any number of further requests (active, idle), closed.
\<close>

lemma tracker_Active_Idle_cycle:
  assumes "c \<in> idleConns s" and "0 \<le> sint (wg s)" and "sint (wg s) + 1 < 2 ^ 31"
  shows "\<exists>s'. process s [Transition c StateActive, Transition c StateIdle] = Inr s'
            \<and> wg s' = wg s \<and> idleConns s' = idleConns s"
proof -
  let ?s1 = "notify (s\<lparr>wg := wg s + 1\<rparr>) c StateActive"
  have a: "connStateTracker s c StateActive = Inr ?s1"
    using assms by (simp add: tracker_New_Active)
  have "sint (wg ?s1) = sint (wg s) + 1"
    using assms sint_wg_shift [of s 1] by simp
  with assms have "0 \<le> sint (wg ?s1)" "0 \<le> sint (wg ?s1) - 1" "c \<in> idleConns ?s1" by simp_all
  then have "connStateTracker ?s1 c StateIdle = Inr (notify (?s1\<lparr>wg := wg ?s1 - 1\<rparr>) c StateIdle)"
    by (simp add: tracker_Idle_again)
  with a show ?thesis by simp
qed

lemma tracker_cycles:
  assumes "c \<in> idleConns s" and "0 \<le> sint (wg s)" and "sint (wg s) + 1 < 2 ^ 31"
  shows "\<exists>s'. process s (concat (replicate n [Transition c StateActive, Transition c StateIdle]))
               = Inr s'
            \<and> wg s' = wg s \<and> idleConns s' = idleConns s"
  using assms
proof (induction n arbitrary: s)
  case 0
  show ?case by simp
next
  case (Suc n)
  from tracker_Active_Idle_cycle [OF Suc.prems] obtain s1 where
    a: "process s [Transition c StateActive, Transition c StateIdle] = Inr s1"
    and b: "wg s1 = wg s" "idleConns s1 = idleConns s"
    by blast
  from b Suc.prems have "c \<in> idleConns s1" "0 \<le> sint (wg s1)" "sint (wg s1) + 1 < 2 ^ 31"
    by simp_all
  from Suc.IH [OF this] obtain s2 where
    c: "process s1 (concat (replicate n [Transition c StateActive, Transition c StateIdle])) = Inr s2"
    and d: "wg s2 = wg s1" "idleConns s2 = idleConns s1"
    by blast
  have "concat (replicate (Suc n) [Transition c StateActive, Transition c StateIdle])
          = [Transition c StateActive, Transition c StateIdle]
            @ concat (replicate n [Transition c StateActive, Transition c StateIdle])"
    by simp
  then have "process s (concat (replicate (Suc n) [Transition c StateActive, Transition c StateIdle]))
          = Inr s2"
    using a c by (simp only: process_append and_then_Inr)
  with b d show ?case by simp
qed

lemma tracker_New_Active_steps:
  assumes "0 \<le> sint (wg s)" and "sint (wg s) + 2 < 2 ^ 31"
  shows "\<exists>s1. process s [Transition c StateNew, Transition c StateActive] = Inr s1
            \<and> wg s1 = wg s + 2 \<and> sint (wg s1) = sint (wg s) + 2
            \<and> idleConns s1 = idleConns s"
proof -
  let ?s1 = "notify (s\<lparr>wg := wg s + 1\<rparr>) c StateNew"
  have a: "connStateTracker s c StateNew = Inr ?s1"
    using assms by (simp add: tracker_New_Active)
  have w1: "sint (wg ?s1) = sint (wg s) + 1"
    using assms sint_wg_shift [of s 1] by simp
  with assms have "0 \<le> sint (wg ?s1)" "sint (wg ?s1) + 1 < 2 ^ 31" by simp_all
  then have b: "connStateTracker ?s1 c StateActive
                  = Inr (notify (?s1\<lparr>wg := wg ?s1 + 1\<rparr>) c StateActive)"
    by (simp add: tracker_New_Active)
  have "sint (2 + wg s) = sint (wg s) + 2"
    using assms sint_wg_shift [of s 2] by (simp add: add.commute)
  with a b show ?thesis by simp
qed

lemma documented_lifecycles_drain:
  assumes "c \<notin> idleConns s" and "0 \<le> sint (wg s)" and "sint (wg s) + 2 < 2 ^ 31"
  shows "(\<exists>s'. process s [Transition c StateNew, Transition c StateActive, Transition c StateClosed]
                 = Inr s'
              \<and> wg s' = wg s \<and> idleConns s' = idleConns s)
       \<and> (\<exists>s'. process s
                  ([Transition c StateNew, Transition c StateActive, Transition c StateIdle]
                   @ concat (replicate n [Transition c StateActive, Transition c StateIdle])
                   @ [Transition c StateClosed])
                 = Inr s'
              \<and> wg s' = wg s \<and> idleConns s' = idleConns s)"
proof
  from tracker_New_Active_steps [OF assms(2,3), of c] obtain s1 where
    a: "process s [Transition c StateNew, Transition c StateActive] = Inr s1"
    and b: "wg s1 = wg s + 2" "sint (wg s1) = sint (wg s) + 2" "idleConns s1 = idleConns s"
    by blast
  from b assms have pre: "0 \<le> sint (wg s1)" "c \<notin> idleConns s1" "0 \<le> sint (wg s1) - 2"
    by simp_all
  have "process s ([Transition c StateNew, Transition c StateActive] @ [Transition c StateClosed])
          = Inr (notify (s1\<lparr>wg := wg s1 - 2\<rparr>) c StateClosed)"
    using a pre by (simp only: process_append and_then_Inr) (simp add: tracker_Closed_direct)
  with b show "\<exists>s'. process s [Transition c StateNew, Transition c StateActive,
                               Transition c StateClosed] = Inr s'
              \<and> wg s' = wg s \<and> idleConns s' = idleConns s"
    by simp
  let ?s2 = "notify (s1\<lparr>idleConns := insert c (idleConns s1), wg := wg s1 - 2\<rparr>) c StateIdle"
  have i: "process s1 [Transition c StateIdle] = Inr ?s2"
    using pre by (simp add: tracker_Idle_first)
  have w2: "wg ?s2 = wg s" "idleConns ?s2 = insert c (idleConns s)" using b by simp_all
  with assms have "c \<in> idleConns ?s2" "0 \<le> sint (wg ?s2)" "sint (wg ?s2) + 1 < 2 ^ 31"
    by simp_all
  from tracker_cycles [OF this, of n] obtain s3 where
    c: "process ?s2 (concat (replicate n [Transition c StateActive, Transition c StateIdle])) = Inr s3"
    and d: "wg s3 = wg ?s2" "idleConns s3 = idleConns ?s2"
    by blast
  from d w2 have "c \<in> idleConns s3" by simp
  then have e: "process s3 [Transition c StateClosed]
                  = Inr (notify (s3\<lparr>idleConns := idleConns s3 - {c}\<rparr>) c StateClosed)"
    by (simp add: tracker_Closed_idle)
  have "process s
          (([Transition c StateNew, Transition c StateActive] @ [Transition c StateIdle])
            @ concat (replicate n [Transition c StateActive, Transition c StateIdle])
            @ [Transition c StateClosed])
        = Inr (notify (s3\<lparr>idleConns := idleConns s3 - {c}\<rparr>) c StateClosed)"
    using a i c e by (simp only: process_append and_then_Inr)
  with d w2 assms(1) show "\<exists>s'. process s
                  ([Transition c StateNew, Transition c StateActive, Transition c StateIdle]
                   @ concat (replicate n [Transition c StateActive, Transition c StateIdle])
                   @ [Transition c StateClosed])
                 = Inr s'
              \<and> wg s' = wg s \<and> idleConns s' = idleConns s"
    by simp
qed

text \<open>
  C1. A keep-alive connection that serves a second request and is closed after it (New,
  Active, Idle, Active, Closed) leaves the counter at 1: it does not return to zero
  although the connection is closed, and a serve goroutine that waits in that state sends
  nothing. A connection that is closed before it sends a request (New, Closed) makes the
  WaitGroup panic with a negative counter.
\<close>

theorem tracker_counter_not_drained:
  "process New [Transition 1 StateNew, Transition 1 StateActive, Transition 1 StateIdle,
                Transition 1 StateActive, Transition 1 StateClosed] = Inr (New\<lparr>wg := 1\<rparr>)
   \<and> Serve_goroutine (New\<lparr>wg := 1\<rparr>) (ErrListenerClosed (NetError ''closed'')) [] = []
   \<and> process New [Transition 1 StateNew, Transition 1 StateClosed] = Inl NegativeWaitGroupCounter"
  by (simp add: connStateTracker_def wg_Add_def wg_Done_def notify_def New_def Serve_goroutine_def)


lemma idle_pending_iff:
  "idle_pending evs c \<longleftrightarrow>
     (\<exists>pre post. evs = pre @ Transition c StateIdle # post
        \<and> Transition c StateHijacked \<notin> set post \<and> Transition c StateClosed \<notin> set post)"
proof (induction evs)
  case Nil
  show ?case by simp
next
  case (Cons e es)
  show ?case
  proof
    assume "idle_pending (e # es) c"
    then consider "idle_pending es c"
      | "e = Transition c StateIdle" "Transition c StateHijacked \<notin> set es"
        "Transition c StateClosed \<notin> set es"
      by auto
    then show "\<exists>pre post. e # es = pre @ Transition c StateIdle # post
        \<and> Transition c StateHijacked \<notin> set post \<and> Transition c StateClosed \<notin> set post"
    proof cases
      case 1
      with Cons.IH obtain pre post where "es = pre @ Transition c StateIdle # post"
        "Transition c StateHijacked \<notin> set post" "Transition c StateClosed \<notin> set post"
        by blast
      then have "e # es = (e # pre) @ Transition c StateIdle # post
        \<and> Transition c StateHijacked \<notin> set post \<and> Transition c StateClosed \<notin> set post"
        by simp
      then show ?thesis by blast
    next
      case 2
      then have "e # es = [] @ Transition c StateIdle # es
        \<and> Transition c StateHijacked \<notin> set es \<and> Transition c StateClosed \<notin> set es"
        by simp
      then show ?thesis by blast
    qed
  next
    assume "\<exists>pre post. e # es = pre @ Transition c StateIdle # post
        \<and> Transition c StateHijacked \<notin> set post \<and> Transition c StateClosed \<notin> set post"
    then obtain pre post where h: "e # es = pre @ Transition c StateIdle # post"
        "Transition c StateHijacked \<notin> set post" "Transition c StateClosed \<notin> set post"
      by blast
    show "idle_pending (e # es) c"
    proof (cases pre)
      case Nil
      with h show ?thesis by simp
    next
      case (Cons p pre')
      with h have "es = pre' @ Transition c StateIdle # post" by simp
      with h Cons.IH have "idle_pending es c" by blast
      then show ?thesis by simp
    qed
  qed
qed







section \<open>Listen, Serve and Shutdown\<close>


lemma setupHTTP2_Serve_fields [simp]:
  "Server_ConnState (setupHTTP2_Serve http2 srv) = Server_ConnState srv"
  "disableKeepAlives (setupHTTP2_Serve http2 srv) = disableKeepAlives srv"
  "Addr (setupHTTP2_Serve http2 srv) = Addr srv"
  by (simp_all add: setupHTTP2_Serve_def)

lemma setupHTTP2_Serve_Certificates:
  "TLSConfig srv = Some config \<Longrightarrow>
     \<exists>config'. TLSConfig (setupHTTP2_Serve http2 srv) = Some config'
        \<and> Certificates config' = Certificates config"
  by (simp add: setupHTTP2_Serve_def http2_ConfigureServer_def Let_def)

lemma session_listening_Listening: "Listening (listener session_listening)"
  by (simp add: session_listening_def WebServer_Listen_def Listen_def net_Listen_def
        Listening_def New_def)


lemma session_serving_Listening:
  "Listening (listener session_serving) \<and> Listener (listener session_serving) \<noteq> None"
  by (simp add: session_serving_def session_listening_def Serve_def WebServer_Listen_def
        Listen_def net_Listen_def Listening_def New_def)






lemma addTLSCert_fields [simp]:
  "listener (addTLSCert s cert) = listener s"
  "wg (addTLSCert s cert) = wg s"
  "idleConns (addTLSCert s cert) = idleConns s"
  by (simp_all add: addTLSCert_def Let_def)

lemma WebServer_Listen_failed:
  "WebServer_Listen s addr bind = (s', Some err) \<Longrightarrow> s' = s"
  by (auto simp: WebServer_Listen_def split: if_splits sum.splits)

lemma before_Listen_not_Listening: "before_Listen s \<Longrightarrow> \<not> Listening (listener s)"
proof (induction rule: before_Listen.induct)
  case fresh
  show ?case by (simp add: New_def Listening_def)
next
  case (failed_Listen s addr bind s' err)
  with WebServer_Listen_failed show ?case by blast
next
  case (after_Serve s http2)
  then show ?case by (simp add: Serve_def)
next
  case (after_AddTLSCertificate s certPEMBlock keyPEMBlock pair)
  then show ?case by (simp add: AddTLSCertificate_def split: sum.splits)
next
  case (after_AddTLSCertificateFromFile s certFile keyFile pair)
  then show ?case by (simp add: AddTLSCertificateFromFile_def split: sum.splits)
next
  case (set_Server s srv)
  then show ?case by simp
next
  case (set_ConnState s hook)
  then show ?case by simp
next
  case (after_Shutdown s r s' effs)
  then show ?case by (simp add: Shutdown_def)
next
  case (after_RoutineStarted s s')
  then show ?case by (auto simp: RoutineStarted_def dest: wg_Add_fields(2))
next
  case (after_RoutineFinished s s')
  then show ?case by (auto simp: RoutineFinished_def wg_Done_def dest: wg_Add_fields(2))
qed

text \<open>
  C8. \<open>Listen\<close> on a server whose listener is listening returns
  \<open>errListenerAlreadyCreated\<close> and the server is as before. \<open>Serve\<close> on a server whose
  listener is not listening returns \<open>errListenerNotYetCreated\<close>, the server is as before
  and no goroutine is started; and the listener is not listening on any server on which
  no \<open>Listen\<close> has succeeded yet, whatever certificates, hook or \<open>http.Server\<close> settings it
  has been given.
\<close>

theorem sequencing_errors:
  "(Listening (listener s) \<longrightarrow>
      WebServer_Listen s addr bind = (s, Some errListenerAlreadyCreated))
   \<and> (\<not> Listening (listener s) \<longrightarrow>
        Serve s http2 = (s, Some errListenerNotYetCreated, None))
   \<and> (before_Listen s \<longrightarrow> \<not> Listening (listener s))"
  using before_Listen_not_Listening [of s]
  by (auto simp: WebServer_Listen_def Serve_def)

lemma tls_session_configured_before: "before_Listen tls_session_configured"
  unfolding tls_session_configured_def
  by (rule before_Listen.after_AddTLSCertificateFromFile) (rule before_Listen.fresh)

theorem sequencing_errors_witness:
  "Listening (listener session_listening)
   \<and> WebServer_Listen session_listening ''127.0.0.1:44380'' None
       = (session_listening, Some errListenerAlreadyCreated)
   \<and> before_Listen tls_session_configured
   \<and> \<not> Listening (listener tls_session_configured)
   \<and> Serve tls_session_configured True
       = (tls_session_configured, Some errListenerNotYetCreated, None)
   \<and> Serve New False = (New, Some errListenerNotYetCreated, None)"
proof -
  note a = sequencing_errors [of session_listening "''127.0.0.1:44380''" None]
  note b = sequencing_errors [of tls_session_configured _ _ True]
  note c = sequencing_errors [of New _ _ False]
  have n: "before_Listen New" by (rule before_Listen.fresh)
  from a b c session_listening_Listening tls_session_configured_before n
  show ?thesis by blast
qed

lemma step_listener: "step s e = Inr s' \<Longrightarrow> listener s' = listener s"
proof (cases e)
  case (Transition d st)
  assume "step s e = Inr s'"
  with Transition show ?thesis
    by (cases st)
       (auto simp: connStateTracker_def wg_Add_def wg_Done_def and_then_eq_Inr Let_def
             split: if_splits)
next
  case Started
  assume "step s e = Inr s'"
  with Started show ?thesis by (auto simp: RoutineStarted_def dest: wg_Add_fields(2))
next
  case Finished
  assume "step s e = Inr s'"
  with Finished show ?thesis
    by (auto simp: RoutineFinished_def wg_Done_def dest: wg_Add_fields(2))
qed

lemma step_counter:
  assumes "step s e = Inr s'" and "0 \<le> sint (wg s)"
  shows "0 \<le> sint (wg s')"
proof (cases e)
  case (Transition d st)
  with assms show ?thesis
    by (cases st)
       (auto simp: connStateTracker_def wg_Add_def wg_Done_def and_then_eq_Inr Let_def
             split: if_splits)
next
  case Started
  with assms show ?thesis by (auto simp: RoutineStarted_def dest: wg_Add_fields(5))
next
  case Finished
  with assms show ?thesis
    by (auto simp: RoutineFinished_def wg_Done_def dest: wg_Add_fields(5))
qed

text \<open>
  In every state that a server can be in, a listening listener has its embedded listener
  set, so \<open>Shutdown\<close> does not panic, and the counter is not negative.
\<close>

lemma reachable_Listener:
  "reachable s \<Longrightarrow> Listening (listener s) \<longrightarrow> Listener (listener s) \<noteq> None"
proof (induction rule: reachable.induct)
  case reach_New
  show ?case by (simp add: New_def Listening_def)
next
  case (reach_Listen s addr bind)
  then show ?case
    by (auto simp: WebServer_Listen_def Listen_def split: sum.splits)
next
  case (reach_Serve s http2)
  then show ?case by (simp add: Serve_def)
next
  case (reach_AddTLSCertificate s certPEMBlock keyPEMBlock pair)
  then show ?case by (simp add: AddTLSCertificate_def split: sum.splits)
next
  case (reach_AddTLSCertificateFromFile s certFile keyFile pair)
  then show ?case by (simp add: AddTLSCertificateFromFile_def split: sum.splits)
next
  case (reach_set_Server s srv)
  then show ?case by simp
next
  case (reach_set_ConnState s hook)
  then show ?case by simp
next
  case (reach_Shutdown s r s' effs)
  then show ?case
    by (auto simp: Shutdown_def Close_def Let_def Listening_def split: if_splits option.splits)
next
  case (reach_step s e s')
  with step_listener show ?case by metis
qed

lemma reachable_counter: "reachable s \<Longrightarrow> 0 \<le> sint (wg s)"
proof (induction rule: reachable.induct)
  case reach_New
  show ?case by (simp add: New_def)
next
  case (reach_Listen s addr bind)
  then show ?case
    by (auto simp: WebServer_Listen_def split: sum.splits)
next
  case (reach_Serve s http2)
  then show ?case by (simp add: Serve_def)
next
  case (reach_AddTLSCertificate s certPEMBlock keyPEMBlock pair)
  then show ?case by (simp add: AddTLSCertificate_def split: sum.splits)
next
  case (reach_AddTLSCertificateFromFile s certFile keyFile pair)
  then show ?case by (simp add: AddTLSCertificateFromFile_def split: sum.splits)
next
  case (reach_set_Server s srv)
  then show ?case by simp
next
  case (reach_set_ConnState s hook)
  then show ?case by simp
next
  case (reach_Shutdown s r s' effs)
  then show ?case
    by (auto simp: Shutdown_def Close_def Let_def split: if_splits option.splits)
next
  case (reach_step s e s')
  with step_counter show ?case by blast
qed

lemma reachable_Shutdown_total: "reachable s \<Longrightarrow> \<exists>s' effs. Shutdown s r = Inr (s', effs)"
  using reachable_Listener [of s]
  by (auto simp: Shutdown_def Close_def Let_def Listening_def split: option.splits)

text \<open>
  C10. \<open>Shutdown\<close> has no error result. On a server that is not listening it changes
  nothing and performs no effect. On a listening server (with the embedded listener set)
  it disables keep-alives, stores false in the listener's flag and closes the underlying
  listener; the result of that Close does not reach the outcome, and the counter, the idle
  set, the hook and the embedded listener of the stored listener are as before.
\<close>

theorem Shutdown_frame:
  "(\<not> Listening (listener s) \<longrightarrow> Shutdown s r = Inr (s, []))
   \<and> (Listening (listener s) \<and> Listener (listener s) \<noteq> None \<longrightarrow>
        Shutdown s r =
          Inr (s\<lparr>Server := (Server s)\<lparr>disableKeepAlives := True\<rparr>,
                 listener := (listener s)\<lparr>listening := 0\<rparr>\<rparr>,
               [AtomicStoreListening 0, UnderlyingClose]))"
  by (auto simp: Shutdown_def Close_def Listening_def)

theorem Shutdown_frame_witness:
  "Shutdown New (Some (NetError ''close failed'')) = Inr (New, [])
   \<and> Shutdown session_serving (Some (NetError ''close failed''))
       = Inr (session_shut_down, [AtomicStoreListening 0, UnderlyingClose])
   \<and> wg session_shut_down = wg session_serving
   \<and> idleConns session_shut_down = idleConns session_serving
   \<and> Listener (listener session_shut_down) = Listener (listener session_serving)"
proof -
  have n: "\<not> Listening (listener New)" by (simp add: New_def Listening_def)
  have l: "Listening (listener session_serving) \<and> Listener (listener session_serving) \<noteq> None"
    by (simp add: session_serving_def session_listening_def Serve_def WebServer_Listen_def
          Listen_def net_Listen_def Listening_def New_def)
  from Shutdown_frame [of New "Some (NetError ''close failed'')"]
       Shutdown_frame [of session_serving "Some (NetError ''close failed'')"] n l
  show ?thesis by (simp add: session_shut_down_def)
qed

text \<open>
  C9, as the code has it. After a \<open>Shutdown\<close> the server is not listening, and a \<open>Listen\<close>
  call on the same server is not refused: it makes a new listener from the server's TLS
  configuration and succeeds exactly when that succeeds, storing the new listener and
  the address. If the configuration is unset or holds a certificate and the transport
  binds, the server is listening again. If the configuration holds no certificate, the
  call fails with the error of \<open>tls.Listen\<close> and the server is as before.
\<close>

theorem Listen_after_Shutdown:
  assumes "Shutdown s r = Inr (s', effs)"
  shows "\<not> Listening (listener s')
       \<and> WebServer_Listen s' addr bind =
           (case Listen ''tcp'' addr (TLSConfig (Server s')) bind of
              Inl err \<Rightarrow> (s', Some err)
            | Inr l \<Rightarrow> (s'\<lparr>listener := l, Server := (Server s')\<lparr>Addr := addr\<rparr>\<rparr>, None))
       \<and> (TLSConfig (Server s') = None
            \<or> (\<exists>config. TLSConfig (Server s') = Some config \<and> Certificates config \<noteq> []) \<longrightarrow>
              snd (WebServer_Listen s' addr None) = None
              \<and> Listening (listener (fst (WebServer_Listen s' addr None)))
              \<and> listener (fst (WebServer_Listen s' addr None))
                  = \<lparr>Listener = Some \<lparr>network = ''tcp'', laddr = addr,
                                      tlsConfig = TLSConfig (Server s')\<rparr>,
                     listening = 1\<rparr>)
       \<and> ((\<exists>config. TLSConfig (Server s') = Some config \<and> Certificates config = []) \<longrightarrow>
              WebServer_Listen s' addr bind = (s', Some tlsNoCertificates))"
proof -
  from assms have n: "\<not> Listening (listener s')"
    by (auto simp: Shutdown_def Close_def Let_def Listening_def split: if_splits option.splits)
  then show ?thesis
    by (auto simp: WebServer_Listen_def Listen_def net_Listen_def tls_Listen_def Listening_def)
qed

lemma tls_session_Shutdown:
  "Shutdown tls_session_serving None
     = Inr (tls_session_shut_down, [AtomicStoreListening 0, UnderlyingClose])"
  by (simp add: Shutdown_def Close_def tls_session_shut_down_def tls_session_serving_def
        tls_session_listening_def tls_session_configured_def AddTLSCertificateFromFile_def
        addTLSCert_def DefaultTLSConfiguration_def BuildNameToCertificate_def test_certificate_def
        Serve_def setupHTTP2_Serve_def WebServer_Listen_def Listen_def tls_Listen_def
        Listening_def New_def)

lemma session_Shutdown:
  "Shutdown session_serving None
     = Inr (session_shut_down, [AtomicStoreListening 0, UnderlyingClose])"
  using session_serving_Listening
  by (simp add: Shutdown_def Close_def session_shut_down_def Listening_def split: option.splits)

lemma tls_session_shut_down_TLSConfig:
  "\<exists>config. TLSConfig (Server tls_session_shut_down) = Some config \<and> Certificates config \<noteq> []"
  by (simp add: tls_session_shut_down_def tls_session_serving_def
        tls_session_listening_def tls_session_configured_def AddTLSCertificateFromFile_def
        addTLSCert_def DefaultTLSConfiguration_def BuildNameToCertificate_def test_certificate_def
        Serve_def setupHTTP2_Serve_def WebServer_Listen_def Listen_def tls_Listen_def
        Listening_def New_def)

lemma session_shut_down_TLSConfig:
  "\<exists>config. TLSConfig (Server session_shut_down) = Some config \<and> Certificates config = []"
  by (simp add: session_shut_down_def session_serving_def session_listening_def
        Serve_def setupHTTP2_Serve_def http2_ConfigureServer_def WebServer_Listen_def Listen_def
        net_Listen_def Listening_def New_def)

theorem Listen_after_Shutdown_witness:
  "Shutdown tls_session_serving None
     = Inr (tls_session_shut_down, [AtomicStoreListening 0, UnderlyingClose])
   \<and> \<not> Listening (listener tls_session_shut_down)
   \<and> snd (WebServer_Listen tls_session_shut_down ''127.0.0.1:44380'' None) = None
   \<and> Listening (listener (fst (WebServer_Listen tls_session_shut_down ''127.0.0.1:44380'' None)))
   \<and> Shutdown session_serving None
     = Inr (session_shut_down, [AtomicStoreListening 0, UnderlyingClose])
   \<and> WebServer_Listen session_shut_down ''127.0.0.1:44380'' None
       = (session_shut_down, Some tlsNoCertificates)"
proof -
  note t = Listen_after_Shutdown [OF tls_session_Shutdown, of "''127.0.0.1:44380''" None]
  note p = Listen_after_Shutdown [OF session_Shutdown, of "''127.0.0.1:44380''" None]
  from t tls_session_shut_down_TLSConfig
  have "\<not> Listening (listener tls_session_shut_down)
     \<and> snd (WebServer_Listen tls_session_shut_down ''127.0.0.1:44380'' None) = None
     \<and> Listening (listener (fst (WebServer_Listen tls_session_shut_down ''127.0.0.1:44380'' None)))"
    by blast
  moreover from p session_shut_down_TLSConfig
  have "WebServer_Listen session_shut_down ''127.0.0.1:44380'' None
       = (session_shut_down, Some tlsNoCertificates)"
    by blast
  ultimately show ?thesis using tls_session_Shutdown session_Shutdown by blast
qed

text \<open>
  C9, as the specification states it, fails: in the session of \<open>testBasicServer\<close> on a
  server with a certificate, after \<open>Listen\<close>, \<open>Serve\<close>, \<open>Shutdown\<close> and the graceful end
  of the serve goroutine, a second \<open>Listen\<close> on the same server returns no error and the
  server is listening again, whether or not the runtime configures HTTP/2.
\<close>

theorem Listen_after_Shutdown_counterexample:
  "AddTLSCertificateFromFile New ''./test/srv1.localhost.crt'' ''./test/srv1.localhost.key''
       (Inr test_certificate)
     = (tls_session_configured, None)
   \<and> WebServer_Listen tls_session_configured ''127.0.0.1:44380'' None
       = (tls_session_listening, None)
   \<and> Serve tls_session_listening True
       = (tls_session_serving, None, Some (listener tls_session_listening))
   \<and> Serve tls_session_listening False
       = (tls_session_serving, None, Some (listener tls_session_listening))
   \<and> Shutdown tls_session_serving None
       = Inr (tls_session_shut_down, [AtomicStoreListening 0, UnderlyingClose])
   \<and> Serve_goroutine tls_session_shut_down
        (ErrListenerClosed (NetError ''use of closed network connection'')) []
       = [ErrGracefulShutdown (ErrListenerClosed (NetError ''use of closed network connection''))]
   \<and> snd (WebServer_Listen tls_session_shut_down ''127.0.0.1:44380'' None) = None
   \<and> Listening (listener (fst (WebServer_Listen tls_session_shut_down ''127.0.0.1:44380'' None)))"
  by (simp add: Shutdown_def Close_def tls_session_shut_down_def tls_session_serving_def
        tls_session_listening_def tls_session_configured_def AddTLSCertificateFromFile_def
        addTLSCert_def DefaultTLSConfiguration_def BuildNameToCertificate_def test_certificate_def
        Serve_def setupHTTP2_Serve_def WebServer_Listen_def Listen_def tls_Listen_def
        Listening_def New_def Serve_goroutine_def)

end
